theory Spec2Isabelle
  imports Main
begin

section \<open>The package initializer \<open>dowhy/gcm/__init__.py\<close>\<close>

text \<open>
  The only source file of the repository is the initializer of the package
  \<open>dowhy.gcm\<close>. It is a Python module whose body is one string expression (the
  docstring) followed by nine \<open>from ... import ...\<close> statements. The module is
  embedded as the list of its statements, in a fragment of Python's abstract syntax
  that also has the statement forms the file does not use (definitions and
  assignments), so that their absence is a property of the file and not of the type.
\<close>

type_synonym pyname = string

datatype stmt =
    Expr string
      \<comment> \<open>an expression statement whose expression is a string constant\<close>
  | ImportFrom "pyname option" "pyname list" nat
      \<comment> \<open>\<open>from <level dots><module> import <names>\<close>; no statement of the file has an \<open>as\<close> clause\<close>
  | Import pyname
      \<comment> \<open>\<open>import <module>\<close>\<close>
  | FunctionDef pyname
  | ClassDef pyname
  | Assign pyname

text \<open>
  What a name of the module's namespace refers to after the body has run: the module's
  docstring, a submodule of the package itself, an attribute of a submodule of the
  package, something imported from outside the package, or an object made by the
  module's own code.
\<close>

datatype origin =
    DocString string
  | Submodule pyname
  | Attribute pyname pyname
  | Foreign "pyname option" pyname
  | Defined

text \<open>
  The state while the body runs is the list of the bindings made so far on the package,
  in order; the last binding of a name is the one in force.
\<close>

definition lookup :: "(pyname \<times> origin) list \<Rightarrow> pyname \<rightharpoonup> origin" where
  "lookup tr = map_of (rev tr)"

text \<open>
  When the import system loads a submodule of a package for the first time, it binds
  the submodule's name on the package. The statement that first names a submodule is
  taken as the place of that load; a submodule that another submodule's own imports
  load earlier is bound earlier still, which only the absent sources could show. Every
  import of the body is taken to succeed.
\<close>

definition load_submodule :: "pyname \<Rightarrow> (pyname \<times> origin) list \<Rightarrow> (pyname \<times> origin) list" where
  "load_submodule m tr = (if (m, Submodule m) \<in> set tr then tr else tr @ [(m, Submodule m)])"

text \<open>
  One name of \<open>from . import <names>\<close>: a name the package already has is bound to what
  it has; any other name is loaded as a submodule and bound to it.
\<close>

definition import_from_package :: "pyname \<Rightarrow> (pyname \<times> origin) list \<Rightarrow> (pyname \<times> origin) list" where
  "import_from_package n tr =
     (case lookup tr n of
        Some x \<Rightarrow> tr @ [(n, x)]
      | None \<Rightarrow> load_submodule n tr @ [(n, Submodule n)])"

text \<open>
  The effect of one statement. A relative import of level 1 is resolved against the
  package: \<open>from .m import n\<close> loads the submodule \<open>m\<close> and binds the name \<open>n\<close> to the
  attribute \<open>n\<close> of \<open>m\<close>. Imports of any other level come from outside the package;
  \<open>import a.b\<close> binds the name \<open>a\<close>.
\<close>

fun exec_stmt :: "stmt \<Rightarrow> (pyname \<times> origin) list \<Rightarrow> (pyname \<times> origin) list" where
  "exec_stmt (Expr s) tr = tr"
| "exec_stmt (ImportFrom None names level) tr =
     (if level = 1 then fold import_from_package names tr
      else tr @ map (\<lambda>n. (n, Foreign None n)) names)"
| "exec_stmt (ImportFrom (Some m) names level) tr =
     (if level = 1 then load_submodule m tr @ map (\<lambda>n. (n, Attribute m n)) names
      else tr @ map (\<lambda>n. (n, Foreign (Some m) n)) names)"
| "exec_stmt (Import m) tr =
     tr @ [(takeWhile (\<lambda>c. c \<noteq> CHR ''.'') m, Foreign None (takeWhile (\<lambda>c. c \<noteq> CHR ''.'') m))]"
| "exec_stmt (FunctionDef n) tr = tr @ [(n, Defined)]"
| "exec_stmt (ClassDef n) tr = tr @ [(n, Defined)]"
| "exec_stmt (Assign n) tr = tr @ [(n, Defined)]"

text \<open>
  A string expression that is the first statement of a module is its docstring and is
  bound to \<open>__doc__\<close> before the body runs.
\<close>

fun doc_binding :: "stmt list \<Rightarrow> (pyname \<times> origin) list" where
  "doc_binding (Expr s # body) = [(''__doc__'', DocString s)]"
| "doc_binding body = []"

text \<open>All bindings made on the package while the body runs, in order.\<close>

definition bindings :: "stmt list \<Rightarrow> (pyname \<times> origin) list" where
  "bindings body = fold exec_stmt body (doc_binding body)"

text \<open>The namespace after the body has run: the last binding of a name is the one that stays.\<close>

definition namespace :: "stmt list \<Rightarrow> pyname \<rightharpoonup> origin" where
  "namespace body = lookup (bindings body)"


fun is_definition :: "stmt \<Rightarrow> bool" where
  "is_definition (FunctionDef n) = True"
| "is_definition (ClassDef n) = True"
| "is_definition s = False"

fun is_import :: "stmt \<Rightarrow> bool" where
  "is_import (ImportFrom m names level) = True"
| "is_import (Import m) = True"
| "is_import s = False"

text \<open>An object of the package itself: one of its submodules, or an attribute of one.\<close>

fun from_submodule :: "origin \<Rightarrow> bool" where
  "from_submodule (Submodule m) = True"
| "from_submodule (Attribute m n) = True"
| "from_submodule x = False"

text \<open>The submodules \<open>m\<close> of the package named in a statement \<open>from .m import ...\<close>, in order.\<close>

fun from_module :: "stmt \<Rightarrow> pyname list" where
  "from_module (ImportFrom (Some m) names level) = (if level = 1 then [m] else [])"
| "from_module s = []"

definition from_modules :: "stmt list \<Rightarrow> pyname list" where
  "from_modules body = concat (map from_module body)"

text \<open>The body of \<open>src/dowhy/gcm/__init__.py\<close>, statement by statement (lines 1 to 35).\<close>

definition gcm_doc :: string where
  "gcm_doc =
     ''The gcm sub-package provides features built on top of graphical causal model (GCM) based inference. The status of\<newline>'' @
     ''this addition and its API is considered experimental, meaning there might be breaking changes to its API in the\<newline>'' @
     ''future.\<newline>''"

definition gcm_init :: "stmt list" where
  "gcm_init =
    [Expr gcm_doc,
     ImportFrom None [''ml'', ''util''] 1,
     ImportFrom (Some ''cms'')
       [''FunctionalCausalModel'',
        ''InvertibleStructuralCausalModel'',
        ''ProbabilisticCausalModel'',
        ''StructuralCausalModel''] 1,
     ImportFrom (Some ''distribution_change'')
       [''distribution_change'', ''distribution_change_of_graphs''] 1,
     ImportFrom (Some ''fcms'')
       [''AdditiveNoiseModel'',
        ''ClassificationModel'',
        ''ClassifierFCM'',
        ''PostNonlinearModel'',
        ''PredictionModel''] 1,
     ImportFrom (Some ''fitting_sampling'') [''draw_samples'', ''fit''] 1,
     ImportFrom (Some ''graph'')
       [''ConditionalStochasticModel'',
        ''DirectedGraph'',
        ''FunctionalCausalModel'',
        ''StochasticModel'',
        ''is_root_node''] 1,
     ImportFrom (Some ''independence_test'') [''approx_kernel_based'', ''kernel_based''] 1,
     ImportFrom (Some ''stochastic_models'')
       [''BayesianGaussianMixtureDistribution'',
        ''EmpiricalDistribution'',
        ''ScipyDistribution''] 1,
     ImportFrom (Some ''whatif'') [''counterfactual_samples'', ''interventional_samples''] 1]"

section \<open>The causal model engine of the specification\<close>

text \<open>
  The graph, fitting and sampling modules that the initializer imports from are not
  among the source files. The definitions of this section are written from the
  specification's description of them (its sections 3, 4.1, 4.3 and 7), for the
  properties it states of \<open>add_edge\<close> and of \<open>counterfactual_samples\<close>.
\<close>

type_synonym node = string

text \<open>
  Modelled from the spec: the error kinds of section 7, which no source file declares.
\<close>

datatype error = CycleError | FittingError | NonInvertibleMechanismError | UnfittedModelError

text \<open>
  Modelled from the spec: \<open>DirectedGraph\<close> (imported from \<open>.graph\<close>, not in the
  sources), a set of nodes and a set of directed edges (parent, child). Both are kept as
  lists in insertion order, which the specification uses to break ties.
\<close>

record DirectedGraph =
  nodes :: "node list"
  edges :: "(node \<times> node) list"

text \<open>Modelled from the spec: the graph before any \<open>add_node\<close> or \<open>add_edge\<close>.\<close>

definition empty_graph :: DirectedGraph where
  "empty_graph = \<lparr>nodes = [], edges = []\<rparr>"

text \<open>Modelled from the spec: \<open>parents_of(node)\<close> of section 4.1.\<close>

definition parents_of :: "DirectedGraph \<Rightarrow> node \<Rightarrow> node list" where
  "parents_of g n = map fst (filter (\<lambda>e. snd e = n) (edges g))"

text \<open>Modelled from the spec: \<open>children_of(node)\<close> of section 4.1.\<close>

definition children_of :: "DirectedGraph \<Rightarrow> node \<Rightarrow> node list" where
  "children_of g n = map snd (filter (\<lambda>e. fst e = n) (edges g))"

text \<open>Modelled from the spec: \<open>is_root(node)\<close>, true iff the node has no parents.\<close>

definition is_root :: "DirectedGraph \<Rightarrow> node \<Rightarrow> bool" where
  "is_root g n = (parents_of g n = [])"

text \<open>Modelled from the spec: \<open>add_node(id)\<close>; nodes are unique identifiers.\<close>

definition add_node :: "node \<Rightarrow> DirectedGraph \<Rightarrow> DirectedGraph" where
  "add_node n g = (if n \<in> set (nodes g) then g else g\<lparr>nodes := nodes g @ [n]\<rparr>)"

text \<open>
  Modelled from the spec: the test "the edge would create a cycle" of \<open>add_edge\<close>, for
  which the specification gives no algorithm. It is a search for a directed path from
  \<open>x\<close> to \<open>y\<close> that follows each edge out of \<open>x\<close> and drops the edges out of \<open>x\<close>
  before it goes on, so that no node is left twice.
\<close>

function has_path :: "(node \<times> node) list \<Rightarrow> node \<Rightarrow> node \<Rightarrow> bool" where
  "has_path es x y =
     (x = y \<or> list_ex (\<lambda>z. has_path (filter (\<lambda>e. fst e \<noteq> x) es) z y)
                 (map snd (filter (\<lambda>e. fst e = x) es)))"
  by pat_completeness auto
termination
proof (relation "measure (\<lambda>(es, x, y). length es)")
  show "wf (measure (\<lambda>(es, x, y). length es))" by simp
next
  fix es :: "(node \<times> node) list" and x y z :: node
  assume "z \<in> set (map snd (filter (\<lambda>e. fst e = x) es))"
  then obtain e where "e \<in> set es" "fst e = x" by auto
  then have "length (filter (\<lambda>e. fst e \<noteq> x) es) < length es"
    by (intro length_filter_less[of e]) auto
  then show "((filter (\<lambda>e. fst e \<noteq> x) es, z, y), (es, x, y)) \<in> measure (\<lambda>(es, x, y). length es)"
    by simp
qed

declare has_path.simps [simp del]

text \<open>
  Modelled from the spec: \<open>add_edge(parent, child)\<close>, which fails with \<open>CycleError\<close>
  if the edge would create a cycle, that is, if the child already reaches the parent.
  The specification does not say what happens to an endpoint that is not yet a node, or
  to an edge that is already there; here the endpoints are added as nodes and the edges
  stay a set.
\<close>

definition add_edge :: "node \<Rightarrow> node \<Rightarrow> DirectedGraph \<Rightarrow> error + DirectedGraph" where
  "add_edge parent child g =
     (if has_path (edges g) child parent then Inl CycleError
      else Inr ((add_node child (add_node parent g))
                  \<lparr>edges := (if (parent, child) \<in> set (edges g) then edges g
                             else edges g @ [(parent, child)])\<rparr>))"

text \<open>
  Modelled from the spec: the loop of \<open>topological_order()\<close>. Each round takes the first
  node, in insertion order, all of whose parents are already placed, and stops when no
  node is left or none can be placed.
\<close>

function kahn :: "DirectedGraph \<Rightarrow> node list \<Rightarrow> node list \<Rightarrow> node list" where
  "kahn g done rest =
     (case find (\<lambda>n. list_all (\<lambda>p. p \<in> set done) (parents_of g n)) rest of
        None \<Rightarrow> done
      | Some n \<Rightarrow> kahn g (done @ [n]) (remove1 n rest))"
  by pat_completeness auto
termination
proof (relation "measure (\<lambda>(g, done, rest). length rest)")
  show "wf (measure (\<lambda>(g, done, rest). length rest))" by simp
next
  fix g :: DirectedGraph and "done" rest :: "node list" and n :: node
  assume "find (\<lambda>n. list_all (\<lambda>p. p \<in> set done) (parents_of g n)) rest = Some n"
  then have "n \<in> set rest"
    by (auto simp: find_Some_iff)
  then have "length (remove1 n rest) < length rest"
    by (simp add: length_remove1) (cases rest; simp)
  then show "((g, done @ [n], remove1 n rest), (g, done, rest))
               \<in> measure (\<lambda>(g, done, rest). length rest)"
    by simp
qed

declare kahn.simps [simp del]

text \<open>
  Modelled from the spec: \<open>topological_order()\<close>, a deterministic total order
  consistent with all edges, ties broken by insertion order.
\<close>

definition topological_order :: "DirectedGraph \<Rightarrow> node list" where
  "topological_order g = kahn g [] (nodes g)"

text \<open>
  Modelled from the spec: the invariant of a \<open>DirectedGraph\<close>: it is acyclic, and its
  edges join nodes of the graph.
\<close>

definition well_formed :: "DirectedGraph \<Rightarrow> bool" where
  "well_formed g \<longleftrightarrow>
     acyclic (set (edges g)) \<and> (\<forall>e \<in> set (edges g). fst e \<in> set (nodes g) \<and> snd e \<in> set (nodes g))"

text \<open>
  Modelled from the spec: "consistent with all edges": in the list, every node comes
  after all its parents (those not in the list are in \<open>S\<close>).
\<close>

fun parents_first :: "DirectedGraph \<Rightarrow> node set \<Rightarrow> node list \<Rightarrow> bool" where
  "parents_first g S [] = True"
| "parents_first g S (n # ns) = (set (parents_of g n) \<subseteq> S \<and> parents_first g (insert n S) ns)"

text \<open>
  Modelled from the spec: \<open>CausalMechanism\<close> of section 3. A root mechanism is an
  unconditional stochastic model; a conditional mechanism is a function
  \<open>f(parent_values, noise)\<close>, optionally with its inverse in the noise argument
  \<open>f\<^sup>-\<^sup>1(observed_value, observed_parent_values)\<close>, paired with a noise distribution;
  a prediction mechanism is a predictor with no noise of its own. Values are of any
  type \<open>'v\<close>, compared exactly; the stochastic models are external to the engine and
  are of any type \<open>'d\<close>.
\<close>

datatype ('v, 'd) mechanism =
    RootMechanism 'd
  | ConditionalMechanism "'v list \<Rightarrow> 'v \<Rightarrow> 'v" "('v \<Rightarrow> 'v list \<Rightarrow> 'v) option" 'd
  | PredictionMechanism "'v list \<Rightarrow> 'v"

text \<open>
  Modelled from the spec: \<open>CausalModel\<close>, a graph with a mapping from nodes to
  mechanisms. A node without a mechanism has not been fitted.
\<close>

record ('v, 'd) CausalModel =
  graph :: DirectedGraph
  mechanisms :: "node \<rightharpoonup> ('v, 'd) mechanism"

text \<open>
  Modelled from the spec: \<open>Intervention\<close>, a mapping from a subset of the nodes to
  replacement mechanisms or fixed values.
\<close>

datatype ('v, 'd) override =
    FixedValue 'v
  | ReplacementMechanism "('v, 'd) mechanism"

type_synonym ('v, 'd) intervention = "node \<rightharpoonup> ('v, 'd) override"

text \<open>
  Modelled from the spec: abduction at one node, \<open>noise = f\<^sup>-\<^sup>1(observed_value,
  observed_parent_values)\<close>, failing with \<open>NonInvertibleMechanismError\<close> at a mechanism
  that cannot be inverted. The specification recovers noise at the non-root nodes only
  and draws nothing afresh in a counterfactual; a root mechanism therefore keeps the
  observed value of its node as that node's noise.
\<close>

fun recover_noise ::
  "('v, 'd) CausalModel \<Rightarrow> (node \<Rightarrow> 'v) \<Rightarrow> node \<Rightarrow> error + 'v" where
  "recover_noise m row n =
     (case mechanisms m n of
        None \<Rightarrow> Inl UnfittedModelError
      | Some (RootMechanism d) \<Rightarrow> Inr (row n)
      | Some (ConditionalMechanism f None d) \<Rightarrow> Inl NonInvertibleMechanismError
      | Some (ConditionalMechanism f (Some f_inv) d) \<Rightarrow>
          Inr (f_inv (row n) (map row (parents_of (graph m) n)))
      | Some (PredictionMechanism f) \<Rightarrow> Inl NonInvertibleMechanismError)"

text \<open>
  Modelled from the spec: the abduction pass of \<open>counterfactual_samples\<close> over the
  nodes of the graph. A fully observed row gives a value to every node.
\<close>

fun abduction ::
  "('v, 'd) CausalModel \<Rightarrow> (node \<Rightarrow> 'v) \<Rightarrow> node list \<Rightarrow> (node \<Rightarrow> 'v) \<Rightarrow> error + (node \<Rightarrow> 'v)" where
  "abduction m row [] noise = Inr noise"
| "abduction m row (n # ns) noise =
     (case recover_noise m row n of
        Inl e \<Rightarrow> Inl e
      | Inr u \<Rightarrow> abduction m row ns (noise(n := u)))"

text \<open>
  Modelled from the spec: the value a mechanism computes from the parent values and a
  given noise value, \<open>f(parents, noise)\<close>.
\<close>

fun apply_mechanism :: "('v, 'd) mechanism \<Rightarrow> 'v list \<Rightarrow> 'v \<Rightarrow> 'v" where
  "apply_mechanism (RootMechanism d) ps u = u"
| "apply_mechanism (ConditionalMechanism f f_inv d) ps u = f ps u"
| "apply_mechanism (PredictionMechanism f) ps u = f ps"

text \<open>
  Modelled from the spec: step 2 of the forward simulation in counterfactual mode, at
  one node: an override of the intervention if there is one, else the fitted mechanism,
  on the already computed parent values and the recovered noise.
\<close>

definition simulate_node ::
  "('v, 'd) CausalModel \<Rightarrow> ('v, 'd) intervention \<Rightarrow> (node \<Rightarrow> 'v) \<Rightarrow> (node \<rightharpoonup> 'v) \<Rightarrow> node
     \<Rightarrow> error + 'v" where
  "simulate_node m iv noise vals n =
     (let ps = List.map_filter vals (parents_of (graph m) n) in
      case iv n of
        Some (FixedValue v) \<Rightarrow> Inr v
      | Some (ReplacementMechanism mech) \<Rightarrow> Inr (apply_mechanism mech ps (noise n))
      | None \<Rightarrow>
          (case mechanisms m n of
             None \<Rightarrow> Inl UnfittedModelError
           | Some mech \<Rightarrow> Inr (apply_mechanism mech ps (noise n))))"

text \<open>
  Modelled from the spec: the forward simulation over the nodes in the given order,
  accumulating one row of values.
\<close>

fun forward_simulation ::
  "('v, 'd) CausalModel \<Rightarrow> ('v, 'd) intervention \<Rightarrow> (node \<Rightarrow> 'v) \<Rightarrow> node list \<Rightarrow> (node \<rightharpoonup> 'v)
     \<Rightarrow> error + (node \<rightharpoonup> 'v)" where
  "forward_simulation m iv noise [] vals = Inr vals"
| "forward_simulation m iv noise (n # ns) vals =
     (case simulate_node m iv noise vals n of
        Inl e \<Rightarrow> Inl e
      | Inr v \<Rightarrow> forward_simulation m iv noise ns (vals(n \<mapsto> v)))"

text \<open>
  Modelled from the spec: \<open>counterfactual_samples\<close> (imported from \<open>.whatif\<close>, not in
  the sources) for one factual row: abduction, then action and prediction by a forward
  simulation in topological order that uses the recovered noise.
\<close>

definition counterfactual_samples ::
  "('v, 'd) CausalModel \<Rightarrow> ('v, 'd) intervention \<Rightarrow> (node \<Rightarrow> 'v) \<Rightarrow> error + (node \<rightharpoonup> 'v)" where
  "counterfactual_samples m iv row =
     (case abduction m row (nodes (graph m)) row of
        Inl e \<Rightarrow> Inl e
      | Inr noise \<Rightarrow> forward_simulation m iv noise (topological_order (graph m)) Map.empty)"

text \<open>
  Modelled from the spec: \<open>InvertibleStructuralCausalModel\<close>: every node has a
  mechanism, and every conditional mechanism is invertible in noise, its inverse giving
  back a noise value from which the mechanism computes the observed value.
\<close>

definition invertible :: "('v, 'd) CausalModel \<Rightarrow> bool" where
  "invertible m \<longleftrightarrow>
     (\<forall>n \<in> set (nodes (graph m)).
        case mechanisms m n of
          Some (RootMechanism d) \<Rightarrow> True
        | Some (ConditionalMechanism f (Some f_inv) d) \<Rightarrow> (\<forall>ps v. f ps (f_inv v ps) = v)
        | _ \<Rightarrow> False)"

text \<open>
  The chain \<open>A \<rightarrow> B \<rightarrow> C\<close> of the specification's end-to-end scenario, over the
  integers: \<open>B = A + noise\<close> and \<open>C = B * 2 + noise\<close>, with one observed row.
\<close>

definition chain_graph :: DirectedGraph where
  "chain_graph = \<lparr>nodes = [''A'', ''B'', ''C''], edges = [(''A'', ''B''), (''B'', ''C'')]\<rparr>"

definition chain_model :: "(int, unit) CausalModel" where
  "chain_model =
     \<lparr>graph = chain_graph,
      mechanisms =
        [''A'' \<mapsto> RootMechanism (),
         ''B'' \<mapsto> ConditionalMechanism (\<lambda>ps u. sum_list ps + u) (Some (\<lambda>v ps. v - sum_list ps)) (),
         ''C'' \<mapsto> ConditionalMechanism (\<lambda>ps u. 2 * sum_list ps + u)
                  (Some (\<lambda>v ps. v - 2 * sum_list ps)) ()]\<rparr>"

definition chain_row :: "node \<Rightarrow> int" where
  "chain_row n = (if n = ''A'' then 1 else if n = ''B'' then 3 else if n = ''C'' then 10 else 0)"

section \<open>The bindings of the initializer\<close>

text \<open>The bindings made while the body runs, computed once, in the order of the file.\<close>

lemma bindings_gcm_init:
  "bindings gcm_init =
    [(''__doc__'', DocString gcm_doc),
     (''ml'', Submodule ''ml''),
     (''ml'', Submodule ''ml''),
     (''util'', Submodule ''util''),
     (''util'', Submodule ''util''),
     (''cms'', Submodule ''cms''),
     (''FunctionalCausalModel'', Attribute ''cms'' ''FunctionalCausalModel''),
     (''InvertibleStructuralCausalModel'', Attribute ''cms'' ''InvertibleStructuralCausalModel''),
     (''ProbabilisticCausalModel'', Attribute ''cms'' ''ProbabilisticCausalModel''),
     (''StructuralCausalModel'', Attribute ''cms'' ''StructuralCausalModel''),
     (''distribution_change'', Submodule ''distribution_change''),
     (''distribution_change'', Attribute ''distribution_change'' ''distribution_change''),
     (''distribution_change_of_graphs'',
        Attribute ''distribution_change'' ''distribution_change_of_graphs''),
     (''fcms'', Submodule ''fcms''),
     (''AdditiveNoiseModel'', Attribute ''fcms'' ''AdditiveNoiseModel''),
     (''ClassificationModel'', Attribute ''fcms'' ''ClassificationModel''),
     (''ClassifierFCM'', Attribute ''fcms'' ''ClassifierFCM''),
     (''PostNonlinearModel'', Attribute ''fcms'' ''PostNonlinearModel''),
     (''PredictionModel'', Attribute ''fcms'' ''PredictionModel''),
     (''fitting_sampling'', Submodule ''fitting_sampling''),
     (''draw_samples'', Attribute ''fitting_sampling'' ''draw_samples''),
     (''fit'', Attribute ''fitting_sampling'' ''fit''),
     (''graph'', Submodule ''graph''),
     (''ConditionalStochasticModel'', Attribute ''graph'' ''ConditionalStochasticModel''),
     (''DirectedGraph'', Attribute ''graph'' ''DirectedGraph''),
     (''FunctionalCausalModel'', Attribute ''graph'' ''FunctionalCausalModel''),
     (''StochasticModel'', Attribute ''graph'' ''StochasticModel''),
     (''is_root_node'', Attribute ''graph'' ''is_root_node''),
     (''independence_test'', Submodule ''independence_test''),
     (''approx_kernel_based'', Attribute ''independence_test'' ''approx_kernel_based''),
     (''kernel_based'', Attribute ''independence_test'' ''kernel_based''),
     (''stochastic_models'', Submodule ''stochastic_models''),
     (''BayesianGaussianMixtureDistribution'',
        Attribute ''stochastic_models'' ''BayesianGaussianMixtureDistribution''),
     (''EmpiricalDistribution'', Attribute ''stochastic_models'' ''EmpiricalDistribution''),
     (''ScipyDistribution'', Attribute ''stochastic_models'' ''ScipyDistribution''),
     (''whatif'', Submodule ''whatif''),
     (''counterfactual_samples'', Attribute ''whatif'' ''counterfactual_samples''),
     (''interventional_samples'', Attribute ''whatif'' ''interventional_samples'')]"
  by (simp add: bindings_def gcm_init_def load_submodule_def import_from_package_def lookup_def)

lemma from_modules_gcm_init:
  "from_modules gcm_init =
    [''cms'', ''distribution_change'', ''fcms'', ''fitting_sampling'', ''graph'',
     ''independence_test'', ''stochastic_models'', ''whatif'']"
  by (simp add: from_modules_def gcm_init_def)

text \<open>
  C1. The initializer has no function or class definition and no statement other than
  its docstring and imports: every statement of the body except the docstring is an
  import, and every name bound while the body runs, except \<open>__doc__\<close>, is bound to a
  submodule of the package or to an attribute of one. Nothing is imported from outside
  the package and nothing is made by the module's own code.
\<close>

theorem gcm_init_only_imports:
  "filter is_definition gcm_init = []
   \<and> filter (\<lambda>s. \<not> is_import s) gcm_init = [Expr gcm_doc]
   \<and> filter (\<lambda>b. \<not> from_submodule (snd b)) (bindings gcm_init)
       = [(''__doc__'', DocString gcm_doc)]"
proof -
  have "filter is_definition gcm_init = []"
    by (simp add: gcm_init_def)
  moreover have "filter (\<lambda>s. \<not> is_import s) gcm_init = [Expr gcm_doc]"
    by (simp add: gcm_init_def)
  moreover have
    "filter (\<lambda>b. \<not> from_submodule (snd b)) (bindings gcm_init)
       = [(''__doc__'', DocString gcm_doc)]"
    by (simp add: bindings_gcm_init)
  ultimately show ?thesis by simp
qed

text \<open>The namespace at one name, as a search through the bindings from the last one back.\<close>

lemma namespace_gcm_init:
  "namespace gcm_init n = map_of (rev (bindings gcm_init)) n"
  by (simp add: namespace_def lookup_def)

text \<open>
  C2. The statements of the form \<open>from .<module> import ...\<close> name exactly the eight
  submodules \<open>cms\<close>, \<open>fcms\<close>, \<open>graph\<close>, \<open>independence_test\<close>,
  \<open>distribution_change\<close>, \<open>fitting_sampling\<close>, \<open>whatif\<close> and
  \<open>stochastic_models\<close>: each of them has such a statement, and no other module has one.
\<close>

theorem gcm_init_eight_submodules:
  "set (from_modules gcm_init) =
     {''cms'', ''fcms'', ''graph'', ''independence_test'', ''distribution_change'',
      ''fitting_sampling'', ''whatif'', ''stochastic_models''}
   \<and> distinct (from_modules gcm_init)"
proof
  show "set (from_modules gcm_init) =
     {''cms'', ''fcms'', ''graph'', ''independence_test'', ''distribution_change'',
      ''fitting_sampling'', ''whatif'', ''stochastic_models''}"
    unfolding from_modules_gcm_init by auto
  show "distinct (from_modules gcm_init)"
    unfolding from_modules_gcm_init by simp
qed

text \<open>
  C3. The names \<open>fit\<close> and \<open>draw_samples\<close> are bound by the import from
  \<open>.fitting_sampling\<close>, and the names \<open>interventional_samples\<close> and
  \<open>counterfactual_samples\<close> by the import from \<open>.whatif\<close>.
\<close>

theorem gcm_init_fit_and_samplers:
  "namespace gcm_init ''fit'' = Some (Attribute ''fitting_sampling'' ''fit'')
   \<and> namespace gcm_init ''draw_samples'' = Some (Attribute ''fitting_sampling'' ''draw_samples'')
   \<and> namespace gcm_init ''interventional_samples''
       = Some (Attribute ''whatif'' ''interventional_samples'')
   \<and> namespace gcm_init ''counterfactual_samples''
       = Some (Attribute ''whatif'' ''counterfactual_samples'')"
  by (simp add: namespace_gcm_init bindings_gcm_init)

text \<open>
  C4. The causal model classes \<open>ProbabilisticCausalModel\<close>,
  \<open>StructuralCausalModel\<close> and \<open>InvertibleStructuralCausalModel\<close> are names of
  the package, each bound by the import from \<open>.cms\<close>.
\<close>

theorem gcm_init_causal_models:
  "namespace gcm_init ''ProbabilisticCausalModel''
       = Some (Attribute ''cms'' ''ProbabilisticCausalModel'')
   \<and> namespace gcm_init ''StructuralCausalModel''
       = Some (Attribute ''cms'' ''StructuralCausalModel'')
   \<and> namespace gcm_init ''InvertibleStructuralCausalModel''
       = Some (Attribute ''cms'' ''InvertibleStructuralCausalModel'')"
  by (simp add: namespace_gcm_init bindings_gcm_init)



text \<open>
  C9. The distributions \<open>EmpiricalDistribution\<close>,
  \<open>BayesianGaussianMixtureDistribution\<close> and \<open>ScipyDistribution\<close> are names of the
  package, each bound by the import from \<open>.stochastic_models\<close>.
\<close>

theorem gcm_init_stochastic_models:
  "namespace gcm_init ''EmpiricalDistribution''
       = Some (Attribute ''stochastic_models'' ''EmpiricalDistribution'')
   \<and> namespace gcm_init ''BayesianGaussianMixtureDistribution''
       = Some (Attribute ''stochastic_models'' ''BayesianGaussianMixtureDistribution'')
   \<and> namespace gcm_init ''ScipyDistribution''
       = Some (Attribute ''stochastic_models'' ''ScipyDistribution'')"
  by (simp add: namespace_gcm_init bindings_gcm_init)

text \<open>
  C10. The first import statement, \<open>from . import ml, util\<close>, binds the names \<open>ml\<close>
  and \<open>util\<close> to the submodules of those names, and neither is one of the modules
  that a statement \<open>from .<module> import ...\<close> of the file names.
\<close>

theorem gcm_init_ml_util:
  "namespace gcm_init ''ml'' = Some (Submodule ''ml'')
   \<and> namespace gcm_init ''util'' = Some (Submodule ''util'')
   \<and> ''ml'' \<notin> set (from_modules gcm_init)
   \<and> ''util'' \<notin> set (from_modules gcm_init)
   \<and> gcm_init ! 1 = ImportFrom None [''ml'', ''util''] 1"
proof -
  have "namespace gcm_init ''ml'' = Some (Submodule ''ml'')"
    by (simp add: namespace_gcm_init bindings_gcm_init)
  moreover have "namespace gcm_init ''util'' = Some (Submodule ''util'')"
    by (simp add: namespace_gcm_init bindings_gcm_init)
  moreover have "''ml'' \<notin> set (from_modules gcm_init)"
    unfolding from_modules_gcm_init by simp
  moreover have "''util'' \<notin> set (from_modules gcm_init)"
    unfolding from_modules_gcm_init by simp
  moreover have "gcm_init ! 1 = ImportFrom None [''ml'', ''util''] 1"
    by (simp add: gcm_init_def)
  ultimately show ?thesis by simp
qed

section \<open>Cycle detection in \<open>add_edge\<close>\<close>

text \<open>The path search decides reachability along the edges.\<close>

lemma has_path_sound: "has_path es x y \<Longrightarrow> (x, y) \<in> (set es)\<^sup>*"
proof (induction es x y rule: has_path.induct)
  case (1 es x y)
  show ?case
  proof (cases "x = y")
    case True
    then show ?thesis by simp
  next
    case False
    with "1.prems" has_path.simps[of es x y]
    have "list_ex (\<lambda>z. has_path (filter (\<lambda>e. fst e \<noteq> x) es) z y)
            (map snd (filter (\<lambda>e. fst e = x) es))"
      by blast
    then obtain z where z: "z \<in> set (map snd (filter (\<lambda>e. fst e = x) es))"
      and hp: "has_path (filter (\<lambda>e. fst e \<noteq> x) es) z y"
      unfolding list_ex_iff by blast
    from "1.IH"[OF z hp] have "(z, y) \<in> (set (filter (\<lambda>e. fst e \<noteq> x) es))\<^sup>*" .
    then have "(z, y) \<in> (set es)\<^sup>*"
      by (rule rtrancl_mono[THEN subsetD, rotated]) auto
    moreover from z have "(x, z) \<in> set es" by auto
    ultimately show ?thesis by (rule converse_rtrancl_into_rtrancl[rotated])
  qed
qed

lemma path_leaves_source:
  assumes "(w, y) \<in> E\<^sup>*"
  shows "(w, y) \<in> {e \<in> E. fst e \<noteq> x}\<^sup>* \<or> (\<exists>z. (x, z) \<in> E \<and> (z, y) \<in> {e \<in> E. fst e \<noteq> x}\<^sup>*)"
  using assms
proof (induction rule: converse_rtrancl_induct)
  case base
  then show ?case by simp
next
  case (step w v)
  from step.IH show ?case
  proof
    assume vy: "(v, y) \<in> {e \<in> E. fst e \<noteq> x}\<^sup>*"
    show ?thesis
    proof (cases "w = x")
      case True
      with step.hyps(1) vy show ?thesis by blast
    next
      case False
      with step.hyps(1) have "(w, v) \<in> {e \<in> E. fst e \<noteq> x}" by simp
      with vy show ?thesis by (blast intro: converse_rtrancl_into_rtrancl)
    qed
  next
    assume "\<exists>z. (x, z) \<in> E \<and> (z, y) \<in> {e \<in> E. fst e \<noteq> x}\<^sup>*"
    then show ?thesis by blast
  qed
qed

lemma no_path_from_removed_source:
  assumes "(x, y) \<in> {e \<in> E. fst e \<noteq> x}\<^sup>*"
  shows "x = y"
  using assms by (cases rule: converse_rtranclE) auto

lemma has_path_complete: "(x, y) \<in> (set es)\<^sup>* \<Longrightarrow> has_path es x y"
proof (induction es x y rule: has_path.induct)
  case (1 es x y)
  show ?case
  proof (cases "x = y")
    case True
    then show ?thesis using has_path.simps[of es x y] by blast
  next
    case False
    from path_leaves_source[OF "1.prems", of x] no_path_from_removed_source[of x y "set es"] False
    obtain z where xz: "(x, z) \<in> set es" and zy: "(z, y) \<in> {e \<in> set es. fst e \<noteq> x}\<^sup>*"
      by blast
    from xz have z: "z \<in> set (map snd (filter (\<lambda>e. fst e = x) es))" by force
    from zy have "(z, y) \<in> (set (filter (\<lambda>e. fst e \<noteq> x) es))\<^sup>*" by simp
    from "1.IH"[OF z this] z
    have "list_ex (\<lambda>z. has_path (filter (\<lambda>e. fst e \<noteq> x) es) z y)
            (map snd (filter (\<lambda>e. fst e = x) es))"
      unfolding list_ex_iff by blast
    then show ?thesis
      using has_path.simps[of es x y] by blast
  qed
qed

lemma has_path_iff: "has_path es x y \<longleftrightarrow> (x, y) \<in> (set es)\<^sup>*"
  using has_path_sound has_path_complete by blast

lemma add_edge_fails_iff:
  "add_edge p c g = Inl CycleError \<longleftrightarrow> (c, p) \<in> (set (edges g))\<^sup>*"
  by (simp add: add_edge_def has_path_iff)

lemma add_edge_Inl: "add_edge p c g = Inl e \<Longrightarrow> e = CycleError"
  by (simp add: add_edge_def split: if_splits)

lemma add_edge_edges:
  "add_edge p c g = Inr g' \<Longrightarrow> set (edges g') = insert (p, c) (set (edges g))"
  by (auto simp: add_edge_def split: if_splits)

lemma set_nodes_add_node: "set (nodes (add_node n g)) = insert n (set (nodes g))"
  by (auto simp: add_node_def)

lemma edges_add_node: "edges (add_node n g) = edges g"
  by (simp add: add_node_def)

lemma add_edge_nodes:
  "add_edge p c g = Inr g' \<Longrightarrow> set (nodes g') = insert p (insert c (set (nodes g)))"
  by (auto simp: add_edge_def set_nodes_add_node split: if_splits)

lemma add_edge_acyclic:
  assumes "acyclic (set (edges g))" and "add_edge p c g = Inr g'"
  shows "acyclic (set (edges g'))"
proof -
  from assms(2) have "add_edge p c g \<noteq> Inl CycleError" by simp
  then have "(c, p) \<notin> (set (edges g))\<^sup>*" by (simp add: add_edge_fails_iff)
  with assms(1) have "acyclic (insert (p, c) (set (edges g)))" by simp
  with add_edge_edges[OF assms(2)] show ?thesis by simp
qed

lemma add_edge_well_formed:
  assumes "well_formed g" and "add_edge p c g = Inr g'"
  shows "well_formed g'"
  using assms add_edge_acyclic[of g p c g'] add_edge_edges[of p c g g'] add_edge_nodes[of p c g g']
  unfolding well_formed_def by auto

lemma add_node_well_formed: "well_formed g \<Longrightarrow> well_formed (add_node n g)"
  unfolding well_formed_def by (auto simp: set_nodes_add_node edges_add_node)

lemma well_formed_empty: "well_formed empty_graph"
  by (simp add: well_formed_def empty_graph_def acyclic_def)

text \<open>The chain graph is what two calls of \<open>add_edge\<close> build from the empty graph.\<close>

lemma chain_graph_built:
  "add_edge ''A'' ''B'' empty_graph = Inr \<lparr>nodes = [''A'', ''B''], edges = [(''A'', ''B'')]\<rparr>"
  "add_edge ''B'' ''C'' \<lparr>nodes = [''A'', ''B''], edges = [(''A'', ''B'')]\<rparr> = Inr chain_graph"
  by code_simp+

lemma chain_graph_well_formed: "well_formed chain_graph"
  using add_edge_well_formed[OF add_edge_well_formed[OF well_formed_empty chain_graph_built(1)]
          chain_graph_built(2)] .

text \<open>
  C7. On an acyclic graph, \<open>add_edge parent child\<close> fails with \<open>CycleError\<close> whenever
  the graph with the new edge would have a cycle; and when the call succeeds, the edges
  of the new graph are the old ones and the new one, and the new graph is acyclic.
\<close>

theorem add_edge_cycle_error:
  assumes "acyclic (set (edges g))"
  shows "(\<not> acyclic (insert (parent, child) (set (edges g)))
            \<longrightarrow> add_edge parent child g = Inl CycleError)
       \<and> (\<forall>g'. add_edge parent child g = Inr g'
            \<longrightarrow> set (edges g') = insert (parent, child) (set (edges g)) \<and> acyclic (set (edges g')))"
proof (intro conjI impI allI)
  assume "\<not> acyclic (insert (parent, child) (set (edges g)))"
  with assms have "(child, parent) \<in> (set (edges g))\<^sup>*" by simp
  then show "add_edge parent child g = Inl CycleError" by (simp add: add_edge_fails_iff)
next
  fix g' assume "add_edge parent child g = Inr g'"
  then show "set (edges g') = insert (parent, child) (set (edges g))" by (rule add_edge_edges)
next
  fix g' assume "add_edge parent child g = Inr g'"
  with assms show "acyclic (set (edges g'))" by (rule add_edge_acyclic)
qed

theorem add_edge_cycle_error_witness:
  "acyclic (set (edges chain_graph))
   \<and> \<not> acyclic (insert (''C'', ''A'') (set (edges chain_graph)))
   \<and> add_edge ''C'' ''A'' chain_graph = Inl CycleError
   \<and> add_edge ''A'' ''C'' chain_graph
       = Inr \<lparr>nodes = [''A'', ''B'', ''C''],
              edges = [(''A'', ''B''), (''B'', ''C''), (''A'', ''C'')]\<rparr>
   \<and> acyclic (set [(''A'', ''B''), (''B'', ''C''), (''A'', ''C'')])"
proof -
  have acyc: "acyclic (set (edges chain_graph))"
    using chain_graph_well_formed by (simp add: well_formed_def)
  have "has_path (edges chain_graph) ''A'' ''C''"
    by code_simp
  then have "(''A'', ''C'') \<in> (set (edges chain_graph))\<^sup>*"
    by (rule has_path_sound)
  then have cyc: "\<not> acyclic (insert (''C'', ''A'') (set (edges chain_graph)))"
    by simp
  with add_edge_cycle_error[OF acyc, of "''C''" "''A''"]
  have fails: "add_edge ''C'' ''A'' chain_graph = Inl CycleError"
    by blast
  have ok: "add_edge ''A'' ''C'' chain_graph
       = Inr \<lparr>nodes = [''A'', ''B'', ''C''],
              edges = [(''A'', ''B''), (''B'', ''C''), (''A'', ''C'')]\<rparr>"
    by code_simp
  with add_edge_cycle_error[OF acyc, of "''A''" "''C''"]
  have "acyclic (set (edges \<lparr>nodes = [''A'', ''B'', ''C''],
              edges = [(''A'', ''B''), (''B'', ''C''), (''A'', ''C'')]\<rparr>))"
    by blast
  then have "acyclic (set [(''A'', ''B''), (''B'', ''C''), (''A'', ''C'')])"
    by simp
  with acyc cyc fails ok show ?thesis by blast
qed

section \<open>The counterfactual round trip\<close>

text \<open>The topological order lists every node of a well-formed graph, parents first.\<close>

lemma parents_of_iff: "p \<in> set (parents_of g n) \<longleftrightarrow> (p, n) \<in> set (edges g)"
  by (force simp: parents_of_def)

lemma parents_first_snoc:
  "parents_first g S (xs @ [n]) \<longleftrightarrow> parents_first g S xs \<and> set (parents_of g n) \<subseteq> S \<union> set xs"
  by (induction xs arbitrary: S) auto

lemma kahn_parents_first:
  "parents_first g {} done \<Longrightarrow> parents_first g {} (kahn g done rest)"
proof (induction g "done" rest rule: kahn.induct)
  case (1 g "done" rest)
  show ?case
  proof (cases "find (\<lambda>n. list_all (\<lambda>p. p \<in> set done) (parents_of g n)) rest")
    case None
    with "1.prems" show ?thesis by (simp add: kahn.simps[of g "done" rest])
  next
    case (Some n)
    then have "list_all (\<lambda>p. p \<in> set done) (parents_of g n)"
      by (auto simp: find_Some_iff)
    then have "set (parents_of g n) \<subseteq> set done"
      by (auto simp: list_all_iff)
    with "1.prems" have "parents_first g {} (done @ [n])"
      by (simp add: parents_first_snoc)
    from "1.IH"[OF Some this] Some show ?thesis
      by (simp add: kahn.simps[of g "done" rest])
  qed
qed

lemma kahn_complete:
  assumes "acyclic (set (edges g))"
    and "\<forall>n \<in> set rest. set (parents_of g n) \<subseteq> set done \<union> set rest"
  shows "set (kahn g done rest) = set done \<union> set rest"
  using assms
proof (induction g "done" rest rule: kahn.induct)
  case (1 g "done" rest)
  note acyc = "1.prems"(1) and closed = "1.prems"(2)
  show ?case
  proof (cases "find (\<lambda>n. list_all (\<lambda>p. p \<in> set done) (parents_of g n)) rest")
    case None
    have "rest = []"
    proof (rule ccontr)
      assume "rest \<noteq> []"
      then obtain x where x: "x \<in> set rest" by (cases rest) auto
      have "wf (set (edges g))"
        using acyc by (intro finite_acyclic_wf) simp_all
      from wfE_min[OF this x] obtain z where z: "z \<in> set rest"
        and minimal: "\<And>y. (y, z) \<in> set (edges g) \<Longrightarrow> y \<notin> set rest"
        by blast
      have "set (parents_of g z) \<subseteq> set done"
      proof
        fix p assume p: "p \<in> set (parents_of g z)"
        then have "p \<notin> set rest" using minimal by (simp add: parents_of_iff)
        with closed z p show "p \<in> set done" by blast
      qed
      then have "list_all (\<lambda>p. p \<in> set done) (parents_of g z)"
        by (auto simp: list_all_iff)
      with None z show False by (auto simp: find_None_iff)
    qed
    moreover from None have "kahn g done rest = done"
      by (subst kahn.simps) simp
    ultimately show ?thesis by simp
  next
    case (Some n)
    then have n: "n \<in> set rest" by (auto simp: find_Some_iff)
    have sets: "set (done @ [n]) \<union> set (remove1 n rest) = set done \<union> set rest"
    proof
      show "set (done @ [n]) \<union> set (remove1 n rest) \<subseteq> set done \<union> set rest"
        using n set_remove1_subset[of n rest] by auto
      show "set done \<union> set rest \<subseteq> set (done @ [n]) \<union> set (remove1 n rest)"
      proof
        fix k assume "k \<in> set done \<union> set rest"
        then show "k \<in> set (done @ [n]) \<union> set (remove1 n rest)"
          by (cases "k = n") (auto simp: in_set_remove1)
      qed
    qed
    have "\<forall>k \<in> set (remove1 n rest).
            set (parents_of g k) \<subseteq> set (done @ [n]) \<union> set (remove1 n rest)"
    proof
      fix k assume "k \<in> set (remove1 n rest)"
      then have "k \<in> set rest" using set_remove1_subset[of n rest] by auto
      with closed have "set (parents_of g k) \<subseteq> set done \<union> set rest" by blast
      with sets show "set (parents_of g k) \<subseteq> set (done @ [n]) \<union> set (remove1 n rest)"
        by simp
    qed
    from "1.IH"[OF Some acyc this] sets Some show ?thesis
      by (simp add: kahn.simps[of g "done" rest])
  qed
qed

lemma topological_order_nodes:
  assumes "well_formed g"
  shows "set (topological_order g) = set (nodes g)"
proof -
  from assms have acyc: "acyclic (set (edges g))"
    and ends: "\<forall>e \<in> set (edges g). fst e \<in> set (nodes g) \<and> snd e \<in> set (nodes g)"
    by (simp_all add: well_formed_def)
  have "\<forall>n \<in> set (nodes g). set (parents_of g n) \<subseteq> set [] \<union> set (nodes g)"
  proof (intro ballI subsetI)
    fix n p assume "p \<in> set (parents_of g n)"
    then have "(p, n) \<in> set (edges g)" by (simp add: parents_of_iff)
    with ends show "p \<in> set [] \<union> set (nodes g)" by force
  qed
  from kahn_complete[OF acyc this] show ?thesis
    by (simp add: topological_order_def)
qed

lemma topological_order_parents_first: "parents_first g {} (topological_order g)"
  unfolding topological_order_def by (rule kahn_parents_first) simp

lemma gather_parent_values:
  "\<forall>p \<in> set ps. vals p = Some (row p) \<Longrightarrow> List.map_filter vals ps = map row ps"
  by (induction ps) (simp_all add: List.map_filter_simps)

lemma abduction_recovers:
  assumes "\<forall>n \<in> set ns. \<exists>u. recover_noise m row n = Inr u"
  shows "\<exists>noise. abduction m row ns acc = Inr noise
           \<and> (\<forall>n \<in> set ns. recover_noise m row n = Inr (noise n))
           \<and> (\<forall>k. k \<notin> set ns \<longrightarrow> noise k = acc k)"
  using assms
proof (induction ns arbitrary: acc)
  case Nil
  then show ?case by simp
next
  case (Cons n ns)
  from Cons.prems obtain u where u: "recover_noise m row n = Inr u" by auto
  from Cons.prems have "\<forall>k \<in> set ns. \<exists>u. recover_noise m row k = Inr u" by simp
  from Cons.IH[OF this, of "acc(n := u)"] obtain noise
    where run: "abduction m row ns (acc(n := u)) = Inr noise"
      and inside: "\<forall>k \<in> set ns. recover_noise m row k = Inr (noise k)"
      and outside: "\<forall>k. k \<notin> set ns \<longrightarrow> noise k = (acc(n := u)) k"
    by blast
  have "abduction m row (n # ns) acc = Inr noise"
    using u run by (simp del: recover_noise.simps)
  moreover have "recover_noise m row n = Inr (noise n)"
  proof (cases "n \<in> set ns")
    case True
    with inside show ?thesis by blast
  next
    case False
    with outside have "noise n = u" by simp
    with u show ?thesis by simp
  qed
  moreover have "\<forall>k. k \<notin> set (n # ns) \<longrightarrow> noise k = acc k"
    using outside by auto
  ultimately show ?case using inside by (auto simp del: recover_noise.simps)
qed

lemma invertible_recover_noise:
  assumes "invertible m" and "n \<in> set (nodes (graph m))"
  shows "\<exists>u mech. recover_noise m row n = Inr u \<and> mechanisms m n = Some mech
           \<and> apply_mechanism mech (map row (parents_of (graph m) n)) u = row n"
proof -
  from assms have
    "case mechanisms m n of
       Some (RootMechanism d) \<Rightarrow> True
     | Some (ConditionalMechanism f (Some f_inv) d) \<Rightarrow> (\<forall>ps v. f ps (f_inv v ps) = v)
     | _ \<Rightarrow> False"
    unfolding invertible_def by blast
  then show ?thesis
    by (auto split: option.splits mechanism.splits)
qed

lemma recover_noise_replays:
  assumes "recover_noise m row n = Inr u" and "invertible m" and "n \<in> set (nodes (graph m))"
  shows "\<exists>mech. mechanisms m n = Some mech
           \<and> apply_mechanism mech (map row (parents_of (graph m) n)) u = row n"
  using invertible_recover_noise[OF assms(2,3), of row] assms(1) by auto

lemma forward_simulation_replays:
  assumes "parents_first (graph m) S ns"
    and "\<forall>k. vals k = (if k \<in> S then Some (row k) else None)"
    and "\<forall>n \<in> set ns. \<exists>mech. mechanisms m n = Some mech
           \<and> apply_mechanism mech (map row (parents_of (graph m) n)) (noise n) = row n"
  shows "forward_simulation m Map.empty noise ns vals
           = Inr (\<lambda>k. if k \<in> S \<union> set ns then Some (row k) else None)"
  using assms
proof (induction ns arbitrary: S vals)
  case Nil
  then show ?case by auto
next
  case (Cons n ns)
  from Cons.prems(1) have ps: "set (parents_of (graph m) n) \<subseteq> S"
    and rest: "parents_first (graph m) (insert n S) ns" by simp_all
  from ps Cons.prems(2) have "\<forall>p \<in> set (parents_of (graph m) n). vals p = Some (row p)"
    by auto
  then have gathered: "List.map_filter vals (parents_of (graph m) n) = map row (parents_of (graph m) n)"
    by (rule gather_parent_values)
  from Cons.prems(3) obtain mech where mech: "mechanisms m n = Some mech"
    and replay: "apply_mechanism mech (map row (parents_of (graph m) n)) (noise n) = row n"
    by auto
  have step: "simulate_node m Map.empty noise vals n = Inr (row n)"
    by (simp add: simulate_node_def gathered mech replay)
  have vals': "\<forall>k. (vals(n \<mapsto> row n)) k = (if k \<in> insert n S then Some (row k) else None)"
    using Cons.prems(2) by simp
  from Cons.prems(3) have "\<forall>k \<in> set ns. \<exists>mech. mechanisms m k = Some mech
           \<and> apply_mechanism mech (map row (parents_of (graph m) k)) (noise k) = row k"
    by simp
  then have "forward_simulation m Map.empty noise ns (vals(n \<mapsto> row n))
               = Inr (\<lambda>k. if k \<in> insert n S \<union> set ns then Some (row k) else None)"
    by (rule Cons.IH[OF rest vals'])
  with step show ?case
    by simp
qed

text \<open>
  C6. For an invertible structural causal model over a well-formed graph and any fully
  observed row, \<open>counterfactual_samples\<close> with the empty intervention succeeds, and
  its output gives every node of the graph the value the row has there.
\<close>

theorem counterfactual_round_trip:
  assumes "well_formed (graph m)" and "invertible m"
  shows "counterfactual_samples m Map.empty row
           = Inr (\<lambda>n. if n \<in> set (nodes (graph m)) then Some (row n) else None)"
proof -
  from assms(2) have "\<forall>n \<in> set (nodes (graph m)). \<exists>u. recover_noise m row n = Inr u"
    using invertible_recover_noise[of m _ row] by blast
  from abduction_recovers[OF this, of row] obtain noise
    where abd: "abduction m row (nodes (graph m)) row = Inr noise"
      and rec: "\<forall>n \<in> set (nodes (graph m)). recover_noise m row n = Inr (noise n)"
    by blast
  have order: "set (topological_order (graph m)) = set (nodes (graph m))"
    using assms(1) by (rule topological_order_nodes)
  have "\<forall>n \<in> set (topological_order (graph m)). \<exists>mech. mechanisms m n = Some mech
           \<and> apply_mechanism mech (map row (parents_of (graph m) n)) (noise n) = row n"
    using rec recover_noise_replays[OF _ assms(2)] order by blast
  from forward_simulation_replays[OF topological_order_parents_first _ this, of Map.empty]
  have "forward_simulation m Map.empty noise (topological_order (graph m)) Map.empty
          = Inr (\<lambda>k. if k \<in> {} \<union> set (topological_order (graph m)) then Some (row k) else None)"
    by simp
  with abd order show ?thesis
    by (simp add: counterfactual_samples_def)
qed

theorem counterfactual_round_trip_witness:
  "well_formed (graph chain_model) \<and> invertible chain_model
   \<and> counterfactual_samples chain_model Map.empty chain_row
       = Inr [''A'' \<mapsto> 1, ''B'' \<mapsto> 3, ''C'' \<mapsto> 10]"
proof -
  have wf: "well_formed (graph chain_model)"
    using chain_graph_well_formed by (simp add: chain_model_def)
  have inv: "invertible chain_model"
    by (simp add: invertible_def chain_model_def chain_graph_def)
  have "(\<lambda>n. if n \<in> set (nodes (graph chain_model)) then Some (chain_row n) else None)
          = [''A'' \<mapsto> 1, ''B'' \<mapsto> 3, ''C'' \<mapsto> 10]"
    by (rule ext) (simp add: chain_model_def chain_graph_def chain_row_def)
  with counterfactual_round_trip[OF wf inv, of chain_row] wf inv show ?thesis
    by simp
qed

end
